theory Spec2Isabelle
  imports Main
begin

section \<open>Strings\<close>

text \<open>
  A JavaScript string is modelled as a \<^typ>\<open>string\<close>: one \<^typ>\<open>char\<close> per code unit, for
  code units below 256. On these, \<open>String.prototype.trim\<close> and the regular expression
  class \<open>\s\<close> treat the same seven code units as white space: TAB, LF, VT, FF, CR, SPACE and
  NBSP.
\<close>

definition is_space :: "char \<Rightarrow> bool" where
  "is_space c \<longleftrightarrow> c \<in> set [CHR 0x09, CHR 0x0A, CHR 0x0B, CHR 0x0C, CHR 0x0D, CHR 0x20, CHR 0xA0]"

text \<open>\<open>s.trim()\<close>\<close>

definition js_trim :: "string \<Rightarrow> string" where
  "js_trim s = rev (dropWhile is_space (rev (dropWhile is_space s)))"

text \<open>
  \<open>s.split(/\s+/)\<close>: the pieces between maximal runs of white space. A run at the start or
  at the end of \<open>s\<close> leaves an empty piece there, and the empty string gives \<open>[""]\<close>.
  \<open>cur\<close> is the piece being read.
\<close>

function split_from :: "string \<Rightarrow> string \<Rightarrow> string list" where
  "split_from cur [] = [cur]"
| "split_from cur (c # cs) =
     (if is_space c then cur # split_from [] (dropWhile is_space cs)
      else split_from (cur @ [c]) cs)"
  by pat_completeness auto
termination
  by (relation "measure (\<lambda>(cur, s). length s)")
     (auto simp: length_dropWhile_le less_Suc_eq_le)

definition js_split_ws :: "string \<Rightarrow> string list" where
  "js_split_ws s = split_from [] s"

text \<open>\<open>s.toLowerCase()\<close> on code units below 256: A-Z and the capital letters of Latin-1.\<close>

definition lower_char :: "char \<Rightarrow> char" where
  "lower_char c =
     (let n = (of_char c :: nat)
      in if 65 \<le> n \<and> n \<le> 90 then char_of (n + 32)
         else if 192 \<le> n \<and> n \<le> 222 \<and> n \<noteq> 215 then char_of (n + 32)
         else c)"

definition toLowerCase :: "string \<Rightarrow> string" where
  "toLowerCase s = map lower_char s"

text \<open>\<open>s.startsWith(p)\<close>\<close>

definition startsWith :: "string \<Rightarrow> string \<Rightarrow> bool" where
  "startsWith s p \<longleftrightarrow> take (length p) s = p"

text \<open>\<open>xs.join(sep)\<close>\<close>

fun js_join :: "string \<Rightarrow> string list \<Rightarrow> string" where
  "js_join sep [] = []"
| "js_join sep [x] = x"
| "js_join sep (x # y # zs) = x @ sep @ js_join sep (y # zs)"

text \<open>JavaScript truthiness of a \<open>string | undefined\<close>: \<open>undefined\<close> and \<open>""\<close> are falsy.\<close>

definition truthy :: "string option \<Rightarrow> bool" where
  "truthy v = (case v of None \<Rightarrow> False | Some s \<Rightarrow> s \<noteq> [])"

section \<open>The collaborators of the controller\<close>

text \<open>
  \<open>RooIgnoreController.ts\<close> calls Node's \<open>path\<close> module, the file system (\<open>fs/promises\<close>,
  \<open>fs\<close>), the \<open>ignore\<close> package and \<open>String.prototype.toPosix\<close>. None of them is part of
  the file; they are the fields of an environment, and every statement below holds for
  every environment unless it names one. A call that can throw or reject returns the
  message of the error on the left: \<open>fs.access\<close>, \<open>fs.readFile\<close>, \<open>realpathSync\<close>, and
  \<open>add\<close> and \<open>ignores\<close> of the matcher. The functions of \<open>path\<close> and \<open>toPosix\<close> return for
  every string.

  The compiled matcher (an \<open>Ignore\<close> instance) is represented by the texts that were
  \<open>add\<close>ed to it, oldest first; \<open>ignore()\<close> is the empty list.
\<close>

type_synonym matcher = "string list"

record env =
  path_resolve :: "string list \<Rightarrow> string"          \<comment> \<open>\<open>path.resolve(...segments)\<close>\<close>
  path_dirname :: "string \<Rightarrow> string"               \<comment> \<open>\<open>path.dirname(p)\<close>\<close>
  path_join :: "string \<Rightarrow> string \<Rightarrow> string"         \<comment> \<open>\<open>path.join(a, b)\<close>\<close>
  path_relative :: "string \<Rightarrow> string \<Rightarrow> string"     \<comment> \<open>\<open>path.relative(from, to)\<close>\<close>
  path_isAbsolute :: "string \<Rightarrow> bool"              \<comment> \<open>\<open>path.isAbsolute(p)\<close>\<close>
  toPosix :: "string \<Rightarrow> string"                    \<comment> \<open>\<open>p.toPosix()\<close>\<close>
  fs_access :: "string \<Rightarrow> bool"                    \<comment> \<open>\<open>fs.access(p)\<close> resolves\<close>
  fs_readFile :: "string \<Rightarrow> string + string"       \<comment> \<open>\<open>fs.readFile(p, "utf8")\<close>\<close>
  realpathSync :: "string \<Rightarrow> string option"        \<comment> \<open>\<open>fsSync.realpathSync(p)\<close>, \<open>None\<close> when it throws\<close>
  add_error :: "string \<Rightarrow> string option"           \<comment> \<open>the error of \<open>instance.add(text)\<close>, if it throws\<close>
  ignores :: "matcher \<Rightarrow> string \<Rightarrow> string + bool"   \<comment> \<open>\<open>instance.ignores(p)\<close>\<close>

definition ignore_new :: matcher where
  "ignore_new = []"

definition ignore_add :: "env \<Rightarrow> matcher \<Rightarrow> string \<Rightarrow> string + matcher" where
  "ignore_add e m text =
     (case add_error e text of Some msg \<Rightarrow> Inl msg | None \<Rightarrow> Inr (m @ [text]))"

section \<open>The controller\<close>

datatype disposable = OnDidChange | OnDidCreate | OnDidDelete | FileWatcher

record controller =
  cwd :: string
  ignoreInstance :: matcher
  rooIgnoreContent :: "string option"
  disposables :: "disposable list"
  reloadTimeout :: "nat option"

definition ignore_file_name :: string where
  "ignore_file_name = ''.kilocodeignore''"

definition self_hiding_rule :: string where
  "self_hiding_rule = ''**/.kilocodeignore''"

subsection \<open>validateAccess\<close>

text \<open>
  Lines 172 to 192: the path handed to the matcher. \<open>realpathSync\<close> has a \<open>try\<close> of its
  own, and falls back to the unresolved absolute path.
\<close>

definition matcher_path :: "env \<Rightarrow> controller \<Rightarrow> string \<Rightarrow> string" where
  "matcher_path e s filePath =
     (let absolutePath = path_resolve e [cwd s, filePath];
          realPath = (case realpathSync e absolutePath of
                        Some r \<Rightarrow> r | None \<Rightarrow> absolutePath);
          relativePath = toPosix e (path_relative e (cwd s) realPath)
      in if startsWith relativePath ''../'' \<or> path_isAbsolute e relativePath
         then toPosix e filePath else relativePath)"

text \<open>The body of the \<open>try\<close> of \<open>validateAccess\<close>: an error of the matcher leaves it.\<close>

definition validateAccess_try :: "env \<Rightarrow> controller \<Rightarrow> string \<Rightarrow> string + bool" where
  "validateAccess_try e s filePath =
     (case ignores e (ignoreInstance s) (matcher_path e s filePath) of
        Inl err \<Rightarrow> Inl err
      | Inr ignored \<Rightarrow> Inr (\<not> ignored))"

definition validateAccess :: "env \<Rightarrow> controller \<Rightarrow> string \<Rightarrow> bool" where
  "validateAccess e s filePath =
     (if \<not> truthy (rooIgnoreContent s) then True
      else case validateAccess_try e s filePath of
             Inr allowed \<Rightarrow> allowed
           | Inl err \<Rightarrow> True)"

subsection \<open>validateCommand\<close>

definition fileReadingCommands :: "string list" where
  "fileReadingCommands =
     [''cat'', ''less'', ''more'', ''head'', ''tail'', ''grep'', ''awk'', ''sed'',
      ''get-content'', ''gc'', ''type'', ''select-string'', ''sls'']"

text \<open>The \<open>for\<close> loop over \<open>parts[1..]\<close>, for an access check \<open>ok\<close>.\<close>

fun scan_args :: "(string \<Rightarrow> bool) \<Rightarrow> string list \<Rightarrow> string option" where
  "scan_args ok [] = None"
| "scan_args ok (arg # rest) =
     (if startsWith arg ''-'' \<or> startsWith arg ''/'' then scan_args ok rest
      else if CHR '':'' \<in> set arg then scan_args ok rest
      else if \<not> ok arg then Some arg
      else scan_args ok rest)"

text \<open>
  \<open>None\<close> is \<open>undefined\<close>. \<open>split\<close> never returns the empty array (lemma
  \<open>split_from_not_Nil\<close>), so \<open>parts[0]\<close> is always a string and the first case is never
  taken.
\<close>

definition validateCommand :: "env \<Rightarrow> controller \<Rightarrow> string \<Rightarrow> string option" where
  "validateCommand e s command =
     (if \<not> truthy (rooIgnoreContent s) then None
      else case js_split_ws (js_trim command) of
             [] \<Rightarrow> None
           | part0 # args \<Rightarrow>
               if toLowerCase part0 \<in> set fileReadingCommands
               then scan_args (validateAccess e s) args
               else None)"

subsection \<open>filterPaths\<close>

text \<open>
  \<open>paths.map(p => ({path: p, allowed: this.validateAccess(p)}))\<close> inside the \<open>try\<close> of
  \<open>filterPaths\<close>, for a check that may throw: the first error ends the \<open>map\<close>.
\<close>

fun map_allowed :: "(string \<Rightarrow> string + bool) \<Rightarrow> string list \<Rightarrow> string + (string \<times> bool) list" where
  "map_allowed check [] = Inr []"
| "map_allowed check (p # ps) =
     (case check p of
        Inl err \<Rightarrow> Inl err
      | Inr allowed \<Rightarrow>
          (case map_allowed check ps of
             Inl err \<Rightarrow> Inl err
           | Inr xs \<Rightarrow> Inr ((p, allowed) # xs)))"

text \<open>\<open>filterPaths\<close> over any implementation of the \<open>validateAccess\<close> method.\<close>

definition filterPaths_with :: "(string \<Rightarrow> string + bool) \<Rightarrow> string list \<Rightarrow> string list" where
  "filterPaths_with check paths =
     (case map_allowed check paths of
        Inr xs \<Rightarrow> map fst (filter snd xs)
      | Inl err \<Rightarrow> [])"

text \<open>The method of the class: its own \<open>validateAccess\<close> returns and never throws.\<close>

definition filterPaths :: "env \<Rightarrow> controller \<Rightarrow> string list \<Rightarrow> string list" where
  "filterPaths e s paths = filterPaths_with (\<lambda>p. Inr (validateAccess e s p)) paths"

subsection \<open>Loading the hierarchy\<close>

text \<open>
  The \<open>while\<close> loop of \<open>findKilocodeIgnoreFiles\<close>. \<open>found\<close> is the array
  \<open>kilocodeIgnoreFiles\<close>. A \<open>path.dirname\<close> that never reaches a fixed point keeps the loop
  running for ever: the value is then \<open>None\<close>.
\<close>

partial_function (option) walk_up :: "env \<Rightarrow> string \<Rightarrow> string list \<Rightarrow> string list option" where
  "walk_up e currentPath found =
     (if currentPath \<noteq> [] \<and> currentPath \<noteq> path_dirname e currentPath
      then walk_up e (path_dirname e currentPath)
             (if fs_access e (path_join e currentPath ignore_file_name)
              then found @ [path_join e currentPath ignore_file_name]
              else found)
      else Some found)"

declare walk_up.simps [code]

definition findKilocodeIgnoreFiles :: "env \<Rightarrow> string \<Rightarrow> string list option" where
  "findKilocodeIgnoreFiles e targetPath =
     map_option rev (walk_up e (path_resolve e [targetPath]) [])"

datatype log_entry = Warn string | Error string

text \<open>
  One round of the \<open>for\<close> loop of \<open>loadRooIgnore\<close>: what the file adds to
  \<open>combinedContent\<close>, and what it writes to the console.
\<close>

definition read_one :: "env \<Rightarrow> string \<Rightarrow> string \<Rightarrow> string list \<times> log_entry list" where
  "read_one e root filePath =
     (case fs_readFile e filePath of
        Inr content \<Rightarrow>
          (if js_trim content \<noteq> []
           then [''# From: '' @ path_relative e root filePath, content]
           else [], [])
      | Inl errorMessage \<Rightarrow>
          ([], [Warn (''Warning: Could not read .kilocodeignore at '' @ filePath
                      @ '': '' @ errorMessage)]))"

fun read_all :: "env \<Rightarrow> string \<Rightarrow> string list \<Rightarrow> string list \<times> log_entry list" where
  "read_all e root [] = ([], [])"
| "read_all e root (f # fs) =
     (let (unit, warned) = read_one e root f;
          (units, warnings) = read_all e root fs
      in (unit @ units, warned @ warnings))"

text \<open>The \<open>catch\<close> of \<open>loadRooIgnore\<close>.\<close>

definition load_failed :: "controller \<Rightarrow> log_entry list \<Rightarrow> string \<Rightarrow> controller \<times> log_entry list" where
  "load_failed s logged errorMessage =
     (s\<lparr>rooIgnoreContent := None, ignoreInstance := ignore_new\<rparr>,
      logged @ [Error (''Unexpected error loading .kilocodeignore files: '' @ errorMessage)])"

text \<open>
  Lines 119 to 157 of \<open>loadRooIgnore\<close>, for the files that were found: the controller
  when the promise settles, and the console output. The file system is the same for the
  whole load.
\<close>

definition load_found :: "env \<Rightarrow> controller \<Rightarrow> string list \<Rightarrow> controller \<times> log_entry list" where
  "load_found e s kilocodeIgnoreFiles =
     (if kilocodeIgnoreFiles = []
      then (s\<lparr>ignoreInstance := ignore_new, rooIgnoreContent := None\<rparr>, [])
      else
        let (combinedContent, logged) = read_all e (cwd s) kilocodeIgnoreFiles
        in if combinedContent \<noteq> []
           then
             let text = js_join ''\<newline>'' combinedContent
             in (case ignore_add e ignore_new text of
                   Inl err \<Rightarrow> load_failed s logged err
                 | Inr m1 \<Rightarrow>
                     (case ignore_add e m1 self_hiding_rule of
                        Inl err \<Rightarrow> load_failed s logged err
                      | Inr m2 \<Rightarrow>
                          (s\<lparr>ignoreInstance := m2, rooIgnoreContent := Some text\<rparr>, logged)))
           else (s\<lparr>ignoreInstance := ignore_new, rooIgnoreContent := None\<rparr>, logged))"

text \<open>\<open>loadRooIgnore\<close>. \<open>None\<close>: the directory walk does not end, and neither does the load.\<close>

definition loadRooIgnore :: "env \<Rightarrow> controller \<Rightarrow> (controller \<times> log_entry list) option" where
  "loadRooIgnore e s =
     (case findKilocodeIgnoreFiles e (cwd s) of
        None \<Rightarrow> None
      | Some kilocodeIgnoreFiles \<Rightarrow> Some (load_found e s kilocodeIgnoreFiles))"

text \<open>\<open>initialize\<close> awaits \<open>loadRooIgnore\<close>.\<close>

definition initialize :: "env \<Rightarrow> controller \<Rightarrow> (controller \<times> log_entry list) option" where
  "initialize e s = loadRooIgnore e s"

subsection \<open>The watcher, the debounce timer and dispose\<close>

text \<open>
  The host: the controller, the subscriptions of the file watcher that the host still
  serves, the timeouts that are armed (by handle), the next handle, and a journal of the
  calls of \<open>loadRooIgnore\<close> and \<open>dispose\<close> in the order they happen. What a reload does to
  the patterns is \<open>loadRooIgnore\<close> above; the journal only records that it was started.
\<close>

datatype fs_event = Changed | Created | Deleted

datatype event = Notify fs_event | Fire nat | Dispose

datatype happened = ReloadStarted | Disposed

record host =
  ctl :: controller
  live :: "disposable list"
  timers :: "nat list"
  fresh :: nat
  journal :: "happened list"

text \<open>The constructor, with \<open>setupFileWatcher\<close>.\<close>

definition construct :: "string \<Rightarrow> host" where
  "construct root =
     \<lparr>ctl = \<lparr>cwd = root, ignoreInstance = ignore_new, rooIgnoreContent = None,
             disposables = [OnDidChange, OnDidCreate, OnDidDelete, FileWatcher],
             reloadTimeout = None\<rparr>,
      live = [OnDidChange, OnDidCreate, OnDidDelete, FileWatcher],
      timers = [], fresh = 1, journal = []\<rparr>"

text \<open>\<open>clearTimeout\<close> of the handle that is stored, then \<open>setTimeout\<close>.\<close>

definition debouncedReload :: "host \<Rightarrow> host" where
  "debouncedReload h =
     (let kept = (case reloadTimeout (ctl h) of
                    Some t \<Rightarrow> removeAll t (timers h) | None \<Rightarrow> timers h)
      in h\<lparr>timers := kept @ [fresh h], fresh := Suc (fresh h),
            ctl := (ctl h)\<lparr>reloadTimeout := Some (fresh h)\<rparr>\<rparr>)"

text \<open>\<open>dispose\<close>: every disposable is disposed, and the array is emptied.\<close>

definition dispose :: "host \<Rightarrow> host" where
  "dispose h =
     h\<lparr>live := filter (\<lambda>d. d \<notin> set (disposables (ctl h))) (live h),
       ctl := (ctl h)\<lparr>disposables := []\<rparr>,
       journal := journal h @ [Disposed]\<rparr>"

fun subscription :: "fs_event \<Rightarrow> disposable" where
  "subscription Changed = OnDidChange"
| "subscription Created = OnDidCreate"
| "subscription Deleted = OnDidDelete"

text \<open>
  One event of the host. A notification reaches its handler while the watcher and the
  subscription are alive; a timeout that is armed fires once and starts a reload.
\<close>

fun step :: "host \<Rightarrow> event \<Rightarrow> host" where
  "step h (Notify k) =
     (if FileWatcher \<in> set (live h) \<and> subscription k \<in> set (live h)
      then debouncedReload h else h)"
| "step h (Fire t) =
     (if t \<in> set (timers h)
      then h\<lparr>timers := removeAll t (timers h), journal := journal h @ [ReloadStarted]\<rparr>
      else h)"
| "step h Dispose = dispose h"

definition run :: "host \<Rightarrow> event list \<Rightarrow> host" where
  "run h evs = foldl step h evs"

section \<open>A POSIX environment\<close>

text \<open>
  One environment, to run the controller on concrete inputs: the functions of
  \<open>path.posix\<close> with \<open>process.cwd()\<close> at \<open>/\<close>, a file system given by two tables, and a
  matcher for a fragment of the gitignore syntax behind the path check of the \<open>ignore\<close>
  package.
\<close>

text \<open>\<open>s.split(d)\<close> for a separator of one character.\<close>

fun split_on :: "char \<Rightarrow> string \<Rightarrow> string list" where
  "split_on d [] = [[]]"
| "split_on d (c # cs) =
     (if c = d then [] # split_on d cs
      else case split_on d cs of
             w # ws \<Rightarrow> (c # w) # ws
           | [] \<Rightarrow> [[c]])"

definition segments :: "string \<Rightarrow> string list" where
  "segments p = filter (\<lambda>seg. seg \<noteq> []) (split_on CHR ''/'' p)"

text \<open>A segment of a path: not empty, and without a slash.\<close>

definition seg_ok :: "string \<Rightarrow> bool" where
  "seg_ok seg \<longleftrightarrow> seg \<noteq> [] \<and> CHR ''/'' \<notin> set seg"

text \<open>\<open>normalizeString\<close> of Node, on segments: \<open>.\<close> is dropped, \<open>..\<close> removes a segment.\<close>

fun normalizeString :: "bool \<Rightarrow> string list \<Rightarrow> string list \<Rightarrow> string list" where
  "normalizeString allowAboveRoot res [] = res"
| "normalizeString allowAboveRoot res (seg # segs) =
     (if seg = ''.'' then normalizeString allowAboveRoot res segs
      else if seg = ''..'' then
        (if res \<noteq> [] \<and> last res \<noteq> ''..''
         then normalizeString allowAboveRoot (butlast res) segs
         else if allowAboveRoot
         then normalizeString allowAboveRoot (res @ [''..'']) segs
         else normalizeString allowAboveRoot res segs)
      else normalizeString allowAboveRoot (res @ [seg]) segs)"

definition posix_isAbsolute :: "string \<Rightarrow> bool" where
  "posix_isAbsolute p \<longleftrightarrow> startsWith p ''/''"

text \<open>
  \<open>path.resolve\<close> reads its arguments from the right until one is absolute, and starts
  from \<open>process.cwd()\<close> when none is. The list is the arguments, last one first.
\<close>

fun resolve_from_right :: "string list \<Rightarrow> string" where
  "resolve_from_right [] = ''/''"
| "resolve_from_right (p # ps) =
     (if p = [] then resolve_from_right ps
      else if posix_isAbsolute p then p
      else resolve_from_right ps @ ''/'' @ p)"

definition posix_resolve :: "string list \<Rightarrow> string" where
  "posix_resolve args =
     CHR ''/'' # js_join ''/'' (normalizeString False [] (segments (resolve_from_right (rev args))))"

text \<open>
  \<open>path.dirname\<close>: the slashes at the end are skipped, then the last segment; the
  character at index 0 is not looked at.
\<close>

definition posix_dirname :: "string \<Rightarrow> string" where
  "posix_dirname p =
     (if p = [] then ''.''
      else
        let hasRoot = posix_isAbsolute p;
            tail = dropWhile (\<lambda>c. c \<noteq> CHR ''/'')
                     (dropWhile (\<lambda>c. c = CHR ''/'') (rev (tl p)))
        in if tail = [] then (if hasRoot then ''/'' else ''.'')
           else if hasRoot \<and> length tail = 1 then ''//''
           else hd p # rev (tl tail))"

definition posix_normalize :: "string \<Rightarrow> string" where
  "posix_normalize p =
     (if p = [] then ''.''
      else
        let isAbsolute = posix_isAbsolute p;
            trailingSeparator = (last p = CHR ''/'');
            body = js_join ''/'' (normalizeString (\<not> isAbsolute) [] (segments p))
        in if body = []
           then (if isAbsolute then ''/'' else if trailingSeparator then ''./'' else ''.'')
           else (if isAbsolute then ''/'' else [])
                @ body @ (if trailingSeparator then ''/'' else []))"

definition posix_join :: "string \<Rightarrow> string \<Rightarrow> string" where
  "posix_join a b =
     (let joined = (if a = [] then b else if b = [] then a else a @ ''/'' @ b)
      in if joined = [] then ''.'' else posix_normalize joined)"

fun drop_common :: "string list \<Rightarrow> string list \<Rightarrow> string list \<times> string list" where
  "drop_common (x # xs) (y # ys) =
     (if x = y then drop_common xs ys else (x # xs, y # ys))"
| "drop_common xs ys = (xs, ys)"

definition posix_relative :: "string \<Rightarrow> string \<Rightarrow> string" where
  "posix_relative from to =
     (let (up, down) = drop_common (segments (posix_resolve [from]))
                                   (segments (posix_resolve [to]))
      in js_join ''/'' (replicate (length up) ''..'' @ down))"

text \<open>
  Modelled from the spec: \<open>utils/path\<close>, which defines \<open>String.prototype.toPosix\<close>, is not
  among the sources. The spec has the relative path "normalized to forward-slash
  separators": every backslash becomes a slash.
\<close>

definition posix_toPosix :: "string \<Rightarrow> string" where
  "posix_toPosix p = map (\<lambda>c. if c = CHR 0x5C then CHR ''/'' else c) p"

text \<open>
  The path check of the \<open>ignore\<close> package, \<open>/^\.*\/|^\.+$/\<close>: a path that starts with a
  slash, with dots and a slash, or that is made of dots only, is not relative.
\<close>

definition isNotRelative :: "string \<Rightarrow> bool" where
  "isNotRelative p =
     (let rest = dropWhile (\<lambda>c. c = CHR ''.'') p
      in if rest = [] then p \<noteq> [] else startsWith rest ''/'')"

text \<open>
  The rules of a matcher: the lines of its texts that are neither empty nor comments. A
  rule is read in one of five shapes: \<open>**/name\<close> and \<open>name\<close> (the name at any depth, with
  all below it), \<open>dir/**\<close> (all below \<open>dir\<close> at the root), \<open>name/\<close> (all below a directory
  of this name) and \<open>*.ext\<close>. The fragment has no negation; a rule of another shape
  matches nothing.
\<close>

definition rule_lines :: "matcher \<Rightarrow> string list" where
  "rule_lines m =
     filter (\<lambda>l. l \<noteq> [] \<and> \<not> startsWith l ''#'') (concat (map (split_on (CHR 0x0A)) m))"

definition endsWith :: "string \<Rightarrow> string \<Rightarrow> bool" where
  "endsWith s p \<longleftrightarrow> length p \<le> length s \<and> drop (length s - length p) s = p"

definition rule_matches :: "string \<Rightarrow> string list \<Rightarrow> bool" where
  "rule_matches rule segs =
     (if startsWith rule ''**/'' then drop 3 rule \<in> set segs
      else if endsWith rule ''/**''
      then (let dir = segments (take (length rule - 3) rule)
            in dir \<noteq> [] \<and> length dir < length segs \<and> take (length dir) segs = dir)
      else if endsWith rule ''/'' then butlast rule \<in> set (butlast segs)
      else if startsWith rule ''*.'' then list_ex (\<lambda>seg. endsWith seg (tl rule)) segs
      else rule \<in> set segs)"

definition gitignore_ignores :: "matcher \<Rightarrow> string \<Rightarrow> string + bool" where
  "gitignore_ignores m p =
     (if p = [] then Inl ''path must not be empty''
      else if isNotRelative p then Inl (''path should be a relative string, but got '' @ p)
      else Inr (list_ex (\<lambda>rule. rule_matches rule (segments p)) (rule_lines m)))"

text \<open>
  \<open>files\<close>: what \<open>readFile\<close> gives for each file that exists. \<open>links\<close>: the real path of each
  symbolic link; every other path is its own real path.
\<close>

definition posix_env :: "(string \<times> (string + string)) list \<Rightarrow> (string \<times> string) list \<Rightarrow> env" where
  "posix_env files links =
     \<lparr>path_resolve = posix_resolve,
      path_dirname = posix_dirname,
      path_join = posix_join,
      path_relative = posix_relative,
      path_isAbsolute = posix_isAbsolute,
      toPosix = posix_toPosix,
      fs_access = (\<lambda>p. map_of files p \<noteq> None),
      fs_readFile = (\<lambda>p. case map_of files p of
                           Some r \<Rightarrow> r
                         | None \<Rightarrow> Inl ''ENOENT: no such file or directory''),
      realpathSync = (\<lambda>p. case map_of links p of Some t \<Rightarrow> Some t | None \<Rightarrow> Some p),
      add_error = (\<lambda>text. None),
      ignores = gitignore_ignores\<rparr>"

section \<open>The vocabulary of the specification\<close>

text \<open>A token that the scan of \<open>validateCommand\<close> passes over: a flag, or a named parameter.\<close>

definition skipped :: "string \<Rightarrow> bool" where
  "skipped arg \<longleftrightarrow> startsWith arg ''-'' \<or> startsWith arg ''/'' \<or> CHR '':'' \<in> set arg"

text \<open>
  \<open>validateCommand\<close> in the words of the specification: the first token decides whether
  the command reads files; if it does, the answer is the first token among the others
  that is not skipped and not accessible.
\<close>

definition validateCommand_spec :: "env \<Rightarrow> controller \<Rightarrow> string \<Rightarrow> string option" where
  "validateCommand_spec e s command =
     (case js_split_ws (js_trim command) of
        [] \<Rightarrow> None
      | first # rest \<Rightarrow>
          if toLowerCase first \<notin> set fileReadingCommands then None
          else find (\<lambda>token. \<not> validateAccess e s token)
                    (filter (\<lambda>token. \<not> skipped token) rest))"

text \<open>The first \<open>n\<close> directories on the way up from \<open>dir\<close>, \<open>dir\<close> first.\<close>

fun ancestors :: "env \<Rightarrow> nat \<Rightarrow> string \<Rightarrow> string list" where
  "ancestors e 0 dir = []"
| "ancestors e (Suc n) dir = dir # ancestors e n (path_dirname e dir)"

text \<open>The walk stops at \<open>dir\<close>: it is empty, or it is its own parent.\<close>

definition at_top :: "env \<Rightarrow> string \<Rightarrow> bool" where
  "at_top e dir \<longleftrightarrow> dir = [] \<or> dir = path_dirname e dir"

text \<open>The walk from \<open>dir\<close> visits \<open>n\<close> directories and then stops.\<close>

fun climbs :: "env \<Rightarrow> string \<Rightarrow> nat \<Rightarrow> bool" where
  "climbs e dir 0 = at_top e dir"
| "climbs e dir (Suc n) = (\<not> at_top e dir \<and> climbs e (path_dirname e dir) n)"

text \<open>The ignore-files that exist in the \<open>n\<close> directories above \<open>start\<close>, nearest first.\<close>

definition discovered :: "env \<Rightarrow> string \<Rightarrow> nat \<Rightarrow> string list" where
  "discovered e start n =
     filter (fs_access e) (map (\<lambda>dir. path_join e dir ignore_file_name) (ancestors e n start))"

text \<open>
  What one ignore-file gives to the combined buffer: a provenance comment and its raw
  content, or nothing when it is blank or cannot be read.
\<close>

definition contribution :: "env \<Rightarrow> string \<Rightarrow> string \<Rightarrow> string list" where
  "contribution e root file =
     (case fs_readFile e file of
        Inr content \<Rightarrow>
          if js_trim content = [] then []
          else [''# From: '' @ path_relative e root file, content]
      | Inl err \<Rightarrow> [])"

definition combined_units :: "env \<Rightarrow> string \<Rightarrow> string list \<Rightarrow> string list" where
  "combined_units e root files = concat (map (contribution e root) files)"

definition readable :: "env \<Rightarrow> string \<Rightarrow> bool" where
  "readable e file \<longleftrightarrow> \<not> isl (fs_readFile e file)"

definition has_patterns :: "env \<Rightarrow> string \<Rightarrow> bool" where
  "has_patterns e file =
     (case fs_readFile e file of Inr content \<Rightarrow> js_trim content \<noteq> [] | Inl err \<Rightarrow> False)"

text \<open>
  The controller after a load whose combined buffer is \<open>units\<close>: the joined text and the
  self-hiding rule are installed, unless there is nothing to install or the matcher
  refuses one of them.
\<close>

definition installed :: "env \<Rightarrow> controller \<Rightarrow> string list \<Rightarrow> controller" where
  "installed e s units =
     (if units \<noteq> [] \<and> add_error e (js_join ''\<newline>'' units) = None
         \<and> add_error e self_hiding_rule = None
      then s\<lparr>ignoreInstance := [js_join ''\<newline>'' units, self_hiding_rule],
              rooIgnoreContent := Some (js_join ''\<newline>'' units)\<rparr>
      else s\<lparr>ignoreInstance := ignore_new, rooIgnoreContent := None\<rparr>)"

text \<open>
  Lines 172 to 185: the path of the candidate relative to the workspace root, symbolic
  links resolved.
\<close>

definition resolved_relative :: "env \<Rightarrow> controller \<Rightarrow> string \<Rightarrow> string" where
  "resolved_relative e s filePath =
     (let absolutePath = path_resolve e [cwd s, filePath];
          realPath = (case realpathSync e absolutePath of
                        Some r \<Rightarrow> r | None \<Rightarrow> absolutePath)
      in toPosix e (path_relative e (cwd s) realPath))"

text \<open>
  The test of line 189 on a relative path, and on the candidate: when it holds, the path
  as written goes to the matcher.
\<close>

definition escapes :: "env \<Rightarrow> string \<Rightarrow> bool" where
  "escapes e relativePath \<longleftrightarrow>
     startsWith relativePath ''../'' \<or> path_isAbsolute e relativePath"

definition falls_back :: "env \<Rightarrow> controller \<Rightarrow> string \<Rightarrow> bool" where
  "falls_back e s filePath \<longleftrightarrow> escapes e (resolved_relative e s filePath)"

text \<open>
  A relative path that leads out of the workspace root: the parent directory itself, a
  path through it, or a path that could not be made relative. The first of the three
  does not pass the test of line 189.
\<close>

definition outside_root :: "env \<Rightarrow> string \<Rightarrow> bool" where
  "outside_root e relativePath \<longleftrightarrow>
     relativePath = ''..'' \<or> startsWith relativePath ''../''
     \<or> path_isAbsolute e relativePath"

text \<open>The candidate lies outside the workspace root once symbolic links are resolved.\<close>

definition resolved_outside :: "env \<Rightarrow> controller \<Rightarrow> string \<Rightarrow> bool" where
  "resolved_outside e s filePath \<longleftrightarrow> outside_root e (resolved_relative e s filePath)"

text \<open>The candidate as it is written lies outside the workspace root.\<close>

definition lexically_outside :: "env \<Rightarrow> controller \<Rightarrow> string \<Rightarrow> bool" where
  "lexically_outside e s filePath \<longleftrightarrow>
     outside_root e (toPosix e (path_relative e (cwd s) (path_resolve e [cwd s, filePath])))"

text \<open>The candidate is written as an absolute path, or starts with the parent directory.\<close>

definition written_outside :: "env \<Rightarrow> string \<Rightarrow> bool" where
  "written_outside e filePath \<longleftrightarrow>
     toPosix e filePath = ''..'' \<or> startsWith (toPosix e filePath) ''/''
     \<or> startsWith (toPosix e filePath) ''../''"

text \<open>
  Two properties of the matcher. The \<open>ignore\<close> package throws on a path that is absolute,
  that is \<open>..\<close>, or that starts with \<open>../\<close>; and a rule added last decides:
  \<open>**/.kilocodeignore\<close> ignores every relative path whose last segment is the name of the
  ignore-file.
\<close>

definition strict_path_check :: "env \<Rightarrow> bool" where
  "strict_path_check e \<longleftrightarrow>
     (\<forall>m p. p = ''..'' \<or> startsWith p ''/'' \<or> startsWith p ''../''
            \<longrightarrow> isl (ignores e m p))"

definition final_segment :: "string \<Rightarrow> string" where
  "final_segment p = last (split_on CHR ''/'' p)"

definition relative_form :: "string \<Rightarrow> bool" where
  "relative_form p \<longleftrightarrow> p \<noteq> [] \<and> \<not> isNotRelative p"

definition honours_self_hiding :: "env \<Rightarrow> bool" where
  "honours_self_hiding e \<longleftrightarrow>
     (\<forall>m p. relative_form p \<and> final_segment p = ignore_file_name
            \<longrightarrow> ignores e (m @ [self_hiding_rule]) p = Inr True)"

section \<open>The workspace of the test suite\<close>

text \<open>
  \<open>RooIgnoreController.spec.ts\<close> works in \<open>/test/path\<close>, with one ignore-file there. The
  environments below are this workspace: with symbolic links, with a matcher that
  refuses every text, with a blank ignore-file, and with a second ignore-file in the
  parent directory.
\<close>

definition test_root :: string where
  "test_root = ''/test/path''"

definition test_patterns :: string where
  "test_patterns = ''node_modules\<newline>.git\<newline>secrets/**\<newline>*.log''"

definition test_env :: "(string \<times> string) list \<Rightarrow> env" where
  "test_env links = posix_env [(''/test/path/.kilocodeignore'', Inr test_patterns)] links"

definition test_start :: controller where
  "test_start = ctl (construct test_root)"

definition test_loaded :: controller where
  "test_loaded =
     \<lparr>cwd = test_root,
      ignoreInstance = [''# From: .kilocodeignore\<newline>'' @ test_patterns, self_hiding_rule],
      rooIgnoreContent = Some (''# From: .kilocodeignore\<newline>'' @ test_patterns),
      disposables = [OnDidChange, OnDidCreate, OnDidDelete, FileWatcher],
      reloadTimeout = None\<rparr>"

definition broken_env :: env where
  "broken_env = (test_env [])\<lparr>add_error := (\<lambda>text. Some ''Invalid regular expression'')\<rparr>"

definition blank_env :: env where
  "blank_env = posix_env [(''/test/path/.kilocodeignore'', Inr '' \<newline>'')] []"

definition two_level_env :: "string + string \<Rightarrow> env" where
  "two_level_env parent =
     posix_env [(''/test/path/.kilocodeignore'', Inr test_patterns),
                (''/test/.kilocodeignore'', parent)] []"

section \<open>Tokens\<close>

lemma split_from_not_Nil: "split_from cur s \<noteq> []"
  by (induction cur s rule: split_from.induct) auto

text \<open>A piece of a split is the part being read followed by a prefix, or lies inside.\<close>

lemma split_from_pieces:
  "t \<in> set (split_from cur s) \<Longrightarrow>
     (\<exists>post. cur @ s = t @ post) \<or> (\<exists>pre post. s = pre @ t @ post)"
proof (induction cur s rule: split_from.induct)
  case (1 cur)
  then show ?case by simp
next
  case (2 cur c cs)
  show ?case
  proof (cases "is_space c")
    case True
    with 2 have "t = cur \<or> t \<in> set (split_from [] (dropWhile is_space cs))" by simp
    then show ?thesis
    proof
      assume "t = cur" then show ?thesis by simp
    next
      assume t: "t \<in> set (split_from [] (dropWhile is_space cs))"
      from "2.IH"(1)[OF True t] have "\<exists>pre post. dropWhile is_space cs = pre @ t @ post"
        by (metis append_Nil)
      then obtain pre post
        where "dropWhile is_space cs = pre @ t @ post" by blast
      then have "c # cs = (c # takeWhile is_space cs @ pre) @ t @ post"
        by (metis append.assoc append_Cons takeWhile_dropWhile_id)
      then show ?thesis by blast
    qed
  next
    case False
    with 2 have t: "t \<in> set (split_from (cur @ [c]) cs)" by simp
    from "2.IH"(2)[OF False t] show ?thesis
    proof
      assume "\<exists>post. (cur @ [c]) @ cs = t @ post"
      then show ?thesis by simp
    next
      assume "\<exists>pre post. cs = pre @ t @ post"
      then obtain pre post where "cs = pre @ t @ post" by blast
      then have "c # cs = (c # pre) @ t @ post" by simp
      then show ?thesis by blast
    qed
  qed
qed

lemma split_from_no_space:
  "t \<in> set (split_from cur s) \<Longrightarrow> \<not> list_ex is_space cur \<Longrightarrow> \<not> list_ex is_space t"
  by (induction cur s rule: split_from.induct) (auto split: if_splits)

lemma js_trim_inside: "\<exists>pre post. s = pre @ js_trim s @ post"
proof -
  let ?d = "dropWhile is_space s"
  have "rev ?d = takeWhile is_space (rev ?d) @ dropWhile is_space (rev ?d)" by simp
  then have "?d = rev (dropWhile is_space (rev ?d)) @ rev (takeWhile is_space (rev ?d))"
    by (metis rev_append rev_rev_ident)
  then have "s = takeWhile is_space s @ js_trim s @ rev (takeWhile is_space (rev ?d))"
    unfolding js_trim_def by (metis takeWhile_dropWhile_id)
  then show ?thesis by blast
qed

lemma token_inside:
  assumes "t \<in> set (js_split_ws (js_trim command))"
  shows "\<exists>pre post. command = pre @ t @ post"
proof -
  from split_from_pieces[OF assms[unfolded js_split_ws_def]]
  obtain pre post where "js_trim command = pre @ t @ post" by fastforce
  moreover obtain a b where "command = a @ js_trim command @ b" using js_trim_inside by blast
  ultimately have "command = (a @ pre) @ t @ (post @ b)" by simp
  then show ?thesis by blast
qed

text \<open>
  Trimming and then splitting gives the pieces of the command that are not empty: the
  maximal runs of characters that are not white space. A blank command gives the one
  empty piece.
\<close>

lemma last_dropWhile: "dropWhile P xs \<noteq> [] \<Longrightarrow> last (dropWhile P xs) = last xs"
  by (induction xs) (auto split: if_splits)

lemma dropWhile_keeps_last:
  "xs \<noteq> [] \<Longrightarrow> \<not> P (last xs) \<Longrightarrow> dropWhile P xs \<noteq> [] \<and> last (dropWhile P xs) = last xs"
  by (induction xs) (auto split: if_splits)

lemma split_leading:
  "filter (\<lambda>w. w \<noteq> []) (split_from [] s)
     = filter (\<lambda>w. w \<noteq> []) (split_from [] (dropWhile is_space s))"
  by (cases s) auto

lemma split_trailing:
  "w \<noteq> [] \<Longrightarrow> list_all is_space w \<Longrightarrow> t = [] \<or> \<not> is_space (last t) \<Longrightarrow>
   split_from cur (t @ w) = split_from cur t @ [[]]"
proof (induction cur t rule: split_from.induct)
  case (1 cur)
  then obtain c w' where w: "w = c # w'" "is_space c" "list_all is_space w'"
    by (cases w) auto
  then have e: "dropWhile is_space w' = []" by (simp add: list_all_iff dropWhile_eq_Nil_conv)
  show ?case by (simp add: w(1,2) e)
next
  case (2 cur c cs)
  show ?case
  proof (cases "is_space c")
    case True
    with 2(5) have cs: "cs \<noteq> []" "\<not> is_space (last cs)" by (auto split: if_splits)
    then have "last cs \<in> set cs" by simp
    with cs(2) have app: "dropWhile is_space (cs @ w) = dropWhile is_space cs @ w"
      by (simp add: dropWhile_append1)
    from dropWhile_keeps_last[where P = is_space and xs = cs, OF cs]
    have "dropWhile is_space cs = [] \<or> \<not> is_space (last (dropWhile is_space cs))"
      using cs(2) by simp
    from "2.IH"(1)[OF True 2(3,4) this] True app show ?thesis by simp
  next
    case False
    with 2(5) have "cs = [] \<or> \<not> is_space (last cs)" by (auto split: if_splits)
    from "2.IH"(2)[OF False 2(3,4) this] False show ?thesis by simp
  qed
qed

lemma split_pieces_nonempty:
  "cur \<noteq> [] \<or> (t \<noteq> [] \<and> \<not> is_space (hd t)) \<Longrightarrow> t = [] \<or> \<not> is_space (last t) \<Longrightarrow>
   [] \<notin> set (split_from cur t)"
proof (induction cur t rule: split_from.induct)
  case (1 cur)
  then show ?case by simp
next
  case (2 cur c cs)
  show ?case
  proof (cases "is_space c")
    case True
    with 2(3) have cur: "cur \<noteq> []" by simp
    from True 2(4) have cs: "cs \<noteq> []" "\<not> is_space (last cs)" by (auto split: if_splits)
    from dropWhile_keeps_last[where P = is_space and xs = cs, OF cs]
    have d: "dropWhile is_space cs \<noteq> []" "last (dropWhile is_space cs) = last cs" by simp_all
    from d(1) have "\<not> is_space (hd (dropWhile is_space cs))" by (rule hd_dropWhile)
    with d cs(2) "2.IH"(1)[OF True] have "[] \<notin> set (split_from [] (dropWhile is_space cs))"
      by simp
    with True cur show ?thesis by simp
  next
    case False
    with 2(4) have "cs = [] \<or> \<not> is_space (last cs)" by (auto split: if_splits)
    with "2.IH"(2)[OF False] False show ?thesis by simp
  qed
qed

lemma js_trim_shape:
  "\<exists>w. dropWhile is_space s = js_trim s @ w \<and> list_all is_space w \<and>
       (js_trim s = [] \<or> (\<not> is_space (hd (js_trim s)) \<and> \<not> is_space (last (js_trim s))))"
proof -
  let ?d = "dropWhile is_space s"
  let ?w = "rev (takeWhile is_space (rev ?d))"
  have "rev ?d = takeWhile is_space (rev ?d) @ dropWhile is_space (rev ?d)" by simp
  then have d: "?d = js_trim s @ ?w"
    unfolding js_trim_def by (metis rev_append rev_rev_ident)
  have w: "list_all is_space ?w"
    by (auto simp: list_all_iff dest: set_takeWhileD)
  have "\<not> is_space (hd (js_trim s)) \<and> \<not> is_space (last (js_trim s))" if t: "js_trim s \<noteq> []"
  proof -
    from t have r: "dropWhile is_space (rev ?d) \<noteq> []" by (simp add: js_trim_def)
    then have "\<not> is_space (hd (dropWhile is_space (rev ?d)))" by (rule hd_dropWhile)
    then have l: "\<not> is_space (last (js_trim s))"
      using r by (simp add: js_trim_def last_rev)
    have "?d \<noteq> []" by (metis d t append_is_Nil_conv)
    moreover have "hd ?d = hd (js_trim s)" by (metis d t hd_append2)
    ultimately have "\<not> is_space (hd (js_trim s))" using hd_dropWhile[of is_space s] by simp
    with l show ?thesis by simp
  qed
  with d w show ?thesis by blast
qed

lemma tokens_of_trimmed:
  "js_split_ws (js_trim s) =
     (if filter (\<lambda>w. w \<noteq> []) (js_split_ws s) = [] then [[]]
      else filter (\<lambda>w. w \<noteq> []) (js_split_ws s))"
proof -
  let ?F = "\<lambda>x. filter (\<lambda>w. w \<noteq> []) (split_from [] x)"
  let ?t = "js_trim s"
  obtain w where d: "dropWhile is_space s = ?t @ w" and w: "list_all is_space w"
    and t: "?t = [] \<or> (\<not> is_space (hd ?t) \<and> \<not> is_space (last ?t))"
    using js_trim_shape by blast
  have "?F (?t @ w) = ?F ?t"
  proof (cases "w = []")
    case True
    then show ?thesis by simp
  next
    case False
    from t have "?t = [] \<or> \<not> is_space (last ?t)" by blast
    from split_trailing[OF False w this] show ?thesis by simp
  qed
  then have F: "?F s = ?F ?t" using split_leading[of s] d by simp
  show ?thesis
  proof (cases "?t = []")
    case True
    with F show ?thesis by (simp add: js_split_ws_def)
  next
    case False
    with t have "[] \<notin> set (split_from [] ?t)" by (intro split_pieces_nonempty) auto
    then have "?F ?t = split_from [] ?t" by (auto simp: filter_id_conv)
    with F split_from_not_Nil[of "[]" ?t] show ?thesis by (simp add: js_split_ws_def)
  qed
qed

section \<open>The scan and the filter\<close>

lemma scan_args_find:
  "scan_args ok args = find (\<lambda>arg. \<not> ok arg) (filter (\<lambda>arg. \<not> skipped arg) args)"
  by (induction args) (auto simp: skipped_def)

lemma scan_args_Some:
  "scan_args ok args = Some r \<Longrightarrow> r \<in> set args \<and> \<not> skipped r \<and> \<not> ok r"
  by (induction args) (auto simp: skipped_def split: if_splits)

lemma validateAccess_sentinel: "\<not> truthy (rooIgnoreContent s) \<Longrightarrow> validateAccess e s p"
  by (simp add: validateAccess_def)

lemma map_allowed_Inr:
  "\<not> list_ex (\<lambda>p. isl (check p)) paths \<Longrightarrow>
   map_allowed check paths = Inr (map (\<lambda>p. (p, check p = Inr True)) paths)"
  by (induction paths) (auto split: sum.splits)

lemma map_allowed_Inl:
  "list_ex (\<lambda>p. isl (check p)) paths \<Longrightarrow> isl (map_allowed check paths)"
  by (induction paths) (auto split: sum.splits)

lemma filterPaths_with_ok:
  assumes "\<not> list_ex (\<lambda>p. isl (check p)) paths"
  shows "filterPaths_with check paths = filter (\<lambda>p. check p = Inr True) paths"
proof -
  have "map fst (filter snd (map (\<lambda>p. (p, check p = Inr True)) ps))
          = filter (\<lambda>p. check p = Inr True) ps" for ps
    by (induction ps) auto
  with assms show ?thesis
    by (simp add: filterPaths_with_def map_allowed_Inr)
qed

lemma filterPaths_with_throw:
  "list_ex (\<lambda>p. isl (check p)) paths \<Longrightarrow> filterPaths_with check paths = []"
  using map_allowed_Inl[of check paths]
  by (auto simp: filterPaths_with_def split: sum.splits)

lemma filterPaths_filter: "filterPaths e s paths = filter (validateAccess e s) paths"
proof -
  have "\<not> list_ex (\<lambda>p. isl (Inr (validateAccess e s p) :: string + bool)) paths"
    by (simp add: list_ex_iff)
  from filterPaths_with_ok[OF this] show ?thesis
    by (simp add: filterPaths_def)
qed

section \<open>The load\<close>

lemma walk_up_climbs:
  "climbs e start n \<Longrightarrow> walk_up e start found = Some (found @ discovered e start n)"
proof (induction n arbitrary: start found)
  case 0
  then show ?case
    by (subst walk_up.simps) (auto simp: at_top_def discovered_def)
next
  case (Suc n)
  then have top: "\<not> at_top e start" and up: "climbs e (path_dirname e start) n" by simp_all
  show ?case
    using top Suc.IH[OF up]
    by (subst walk_up.simps) (auto simp: at_top_def discovered_def)
qed

lemma find_climbs:
  "climbs e (path_resolve e [root]) n \<Longrightarrow>
   findKilocodeIgnoreFiles e root = Some (rev (discovered e (path_resolve e [root]) n))"
  by (simp add: findKilocodeIgnoreFiles_def walk_up_climbs)

lemma read_one_unit: "fst (read_one e root file) = contribution e root file"
  by (auto simp: read_one_def contribution_def split: sum.splits)

lemma read_all_units: "fst (read_all e root files) = combined_units e root files"
  by (induction files) (auto simp: combined_units_def read_one_unit[symmetric] split: prod.splits)

lemma read_all_warns:
  "bad \<in> set files \<Longrightarrow> fs_readFile e bad = Inl msg \<Longrightarrow>
   Warn (''Warning: Could not read .kilocodeignore at '' @ bad @ '': '' @ msg)
     \<in> set (snd (read_all e root files))"
  by (induction files) (auto simp: read_one_def split: prod.splits sum.splits)

lemma combined_units_readable:
  "combined_units e root (filter (readable e) files) = combined_units e root files"
  by (induction files) (auto simp: combined_units_def contribution_def readable_def split: sum.splits)

lemma combined_units_Nil [simp]: "combined_units e root [] = []"
  by (simp add: combined_units_def)

lemma combined_units_empty:
  "combined_units e root files = [] \<longleftrightarrow> \<not> list_ex (has_patterns e) files"
  by (induction files)
     (auto simp: combined_units_def contribution_def has_patterns_def split: sum.splits)

lemma load_found_installed:
  "fst (load_found e s files) = installed e s (combined_units e (cwd s) files)"
proof (cases "files = []")
  case True
  then show ?thesis by (simp add: load_found_def installed_def)
next
  case False
  obtain units logged where r: "read_all e (cwd s) files = (units, logged)" by force
  then have u: "combined_units e (cwd s) files = units"
    using read_all_units[of e "cwd s" files] by simp
  show ?thesis
    using False r
    by (auto simp: load_found_def installed_def u load_failed_def ignore_add_def ignore_new_def
             Let_def split: option.splits)
qed

lemma load_found_log:
  "files \<noteq> [] \<Longrightarrow> set (snd (read_all e (cwd s) files)) \<subseteq> set (snd (load_found e s files))"
  by (auto simp: load_found_def load_failed_def Let_def split: prod.splits sum.splits)

lemma loadRooIgnore_installed:
  "findKilocodeIgnoreFiles e (cwd s) = Some files \<Longrightarrow>
   \<exists>logged. loadRooIgnore e s = Some (installed e s (combined_units e (cwd s) files), logged)"
  using load_found_installed[of e s files]
  by (cases "load_found e s files") (simp add: loadRooIgnore_def)

lemma js_join_not_Nil: "units \<noteq> [] \<Longrightarrow> hd units \<noteq> [] \<Longrightarrow> js_join sep units \<noteq> []"
  by (induction sep units rule: js_join.induct) auto

lemma contribution_hd: "contribution e root f \<noteq> [] \<Longrightarrow> hd (contribution e root f) \<noteq> []"
  by (auto simp: contribution_def split: sum.splits if_splits)

lemma combined_units_hd:
  "combined_units e root files \<noteq> [] \<Longrightarrow> hd (combined_units e root files) \<noteq> []"
proof (induction files)
  case Nil
  then show ?case by simp
next
  case (Cons f fs)
  show ?case
  proof (cases "contribution e root f = []")
    case True
    with Cons show ?thesis by (simp add: combined_units_def)
  next
    case False
    then show ?thesis using contribution_hd[OF False] by (simp add: combined_units_def)
  qed
qed

text \<open>The combined text of a load is never the empty string.\<close>

lemma installed_truthy:
  "rooIgnoreContent (installed e s (combined_units e root files)) = Some text \<Longrightarrow> text \<noteq> []"
  using js_join_not_Nil[OF _ combined_units_hd, of e root files "''\<newline>''"]
  by (auto simp: installed_def split: if_splits)

section \<open>The POSIX environment\<close>

lemma posix_strict: "strict_path_check (posix_env files links)"
proof -
  have "p \<noteq> [] \<and> isNotRelative p"
    if "p = ''..'' \<or> startsWith p ''/'' \<or> startsWith p ''../''" for p
  proof -
    from that consider "p = ''..''" | rest where "p = CHR ''/'' # rest"
      | rest where "p = CHR ''.'' # CHR ''.'' # CHR ''/'' # rest"
      by (cases p; cases "tl p"; cases "tl (tl p)") (auto simp: startsWith_def)
    then show ?thesis
      by cases (simp_all add: isNotRelative_def startsWith_def)
  qed
  then show ?thesis
    by (auto simp: strict_path_check_def posix_env_def gitignore_ignores_def)
qed

text \<open>What goes to the matcher, and what its answer does to \<open>validateAccess\<close>.\<close>

lemma matcher_path_cases:
  "matcher_path e s p = (if falls_back e s p then toPosix e p else resolved_relative e s p)"
  by (simp add: matcher_path_def falls_back_def escapes_def resolved_relative_def Let_def)

lemma validateAccess_matcher:
  "truthy (rooIgnoreContent s) \<Longrightarrow>
   validateAccess e s p = (ignores e (ignoreInstance s) (matcher_path e s p) \<noteq> Inr True)"
  by (auto simp: validateAccess_def validateAccess_try_def split: sum.splits)

lemma split_on_not_Nil: "split_on d s \<noteq> []"
  by (induction s) (auto split: list.splits)

lemma final_segment_in_segments:
  "final_segment p = seg \<Longrightarrow> seg \<noteq> [] \<Longrightarrow> seg \<in> set (segments p)"
  using last_in_set[OF split_on_not_Nil, of "CHR ''/''" p]
  by (auto simp: final_segment_def segments_def)

lemma self_hiding_rule_line: "self_hiding_rule \<in> set (rule_lines (m @ [self_hiding_rule]))"
proof -
  have "split_on (CHR 0x0A) self_hiding_rule = [self_hiding_rule]" by code_simp
  moreover have "self_hiding_rule \<noteq> [] \<and> \<not> startsWith self_hiding_rule ''#''" by code_simp
  ultimately show ?thesis by (simp add: rule_lines_def)
qed

lemma self_hiding_rule_matches:
  "rule_matches self_hiding_rule segs \<longleftrightarrow> ignore_file_name \<in> set segs"
  by (simp add: rule_matches_def self_hiding_rule_def ignore_file_name_def startsWith_def)

lemma posix_self_hiding: "honours_self_hiding (posix_env files links)"
proof -
  have "gitignore_ignores (m @ [self_hiding_rule]) p = Inr True"
    if "relative_form p" "final_segment p = ignore_file_name" for m p
  proof -
    have "ignore_file_name \<in> set (segments p)"
      using final_segment_in_segments[OF that(2)] by (simp add: ignore_file_name_def)
    then have "rule_matches self_hiding_rule (segments p)"
      by (simp add: self_hiding_rule_matches)
    with self_hiding_rule_line[of m]
    have "list_ex (\<lambda>rule. rule_matches rule (segments p)) (rule_lines (m @ [self_hiding_rule]))"
      unfolding list_ex_iff by blast
    with that(1) show ?thesis
      by (simp add: gitignore_ignores_def relative_form_def)
  qed
  then show ?thesis
    by (simp add: honours_self_hiding_def posix_env_def)
qed

text \<open>
  In the POSIX environment the walk ends for every start directory: \<open>path.resolve\<close>
  gives a slash followed by segments joined with slashes, and \<open>path.dirname\<close> removes the
  last segment until none is left. So every load settles.
\<close>

lemma split_on_no_sep: "x \<in> set (split_on d s) \<Longrightarrow> d \<notin> set x"
  by (induction s arbitrary: x) (auto split: if_splits list.splits)

lemma segments_ok: "x \<in> set (segments p) \<Longrightarrow> seg_ok x"
  using split_on_no_sep[of x "CHR ''/''" p] by (auto simp: segments_def seg_ok_def)

lemma normalizeString_subset:
  "set (normalizeString False res segs) \<subseteq> set res \<union> set segs"
proof (induction segs arbitrary: res)
  case Nil
  then show ?case by simp
next
  case (Cons seg segs)
  have b: "set (butlast res) \<subseteq> set res" by (auto dest: in_set_butlastD)
  show ?case
    using Cons[of res] Cons[of "butlast res"] Cons[of "res @ [seg]"] b
    by (auto simp del: normalizeString.simps simp add: normalizeString.simps(2)[of False res seg segs])
qed

lemma posix_resolve_form:
  "\<exists>ss. list_all seg_ok ss \<and> posix_resolve args = CHR ''/'' # js_join ''/'' ss"
proof -
  let ?ss = "normalizeString False [] (segments (resolve_from_right (rev args)))"
  have "list_all seg_ok ?ss"
    using normalizeString_subset[of "[]" "segments (resolve_from_right (rev args))"] segments_ok
    by (auto simp: list_all_iff)
  then show ?thesis unfolding posix_resolve_def by blast
qed

lemma js_join_snoc:
  "js_join sep (ss @ [x]) = (if ss = [] then x else js_join sep ss @ sep @ x)"
  by (induction sep ss rule: js_join.induct) auto

lemma js_join_ok_not_Nil: "ss \<noteq> [] \<Longrightarrow> list_all seg_ok ss \<Longrightarrow> js_join sep ss \<noteq> []"
  by (induction sep ss rule: js_join.induct) (auto simp: seg_ok_def)

lemma posix_dirname_abs:
  assumes "list_all seg_ok (ss @ [x])"
  shows "posix_dirname (CHR ''/'' # js_join ''/'' (ss @ [x])) = CHR ''/'' # js_join ''/'' ss"
proof -
  from assms have x: "x \<noteq> []" "CHR ''/'' \<notin> set x" and ss: "list_all seg_ok ss"
    by (simp_all add: seg_ok_def)
  let ?rest = "if ss = [] then [] else CHR ''/'' # rev (js_join ''/'' ss)"
  have r: "rev (js_join ''/'' (ss @ [x])) = rev x @ ?rest"
    by (simp add: js_join_snoc)
  from x have "rev x \<noteq> []" "hd (rev x) \<noteq> CHR ''/''"
    by (simp_all add: hd_rev) (metis last_in_set)
  then have d1: "dropWhile (\<lambda>c. c = CHR ''/'') (rev x @ ?rest) = rev x @ ?rest"
    by (cases "rev x") auto
  have "dropWhile (\<lambda>c. c \<noteq> CHR ''/'') (rev x @ ?rest)
          = dropWhile (\<lambda>c. c \<noteq> CHR ''/'') ?rest"
    by (rule dropWhile_append2) (use x(2) in auto)
  then have d2: "dropWhile (\<lambda>c. c \<noteq> CHR ''/'') (rev x @ ?rest) = ?rest"
    by simp
  show ?thesis
  proof (cases "ss = []")
    case True
    then show ?thesis
      using d1 d2 r by (simp add: posix_dirname_def posix_isAbsolute_def startsWith_def)
  next
    case False
    then have "js_join ''/'' ss \<noteq> []" using ss by (rule js_join_ok_not_Nil)
    then show ?thesis
      using False d1 d2 r
      by (simp add: posix_dirname_def posix_isAbsolute_def startsWith_def Let_def)
  qed
qed

lemma posix_climbs_abs:
  "list_all seg_ok ss \<Longrightarrow>
   climbs (posix_env files links) (CHR ''/'' # js_join ''/'' ss) (length ss)"
proof (induction ss rule: rev_induct)
  case Nil
  have "posix_dirname ''/'' = ''/''" by code_simp
  then show ?case by (simp add: at_top_def posix_env_def)
next
  case (snoc x ss)
  then have ss: "list_all seg_ok ss" and "seg_ok x" by simp_all
  then have x: "x \<noteq> []" by (simp add: seg_ok_def)
  have d: "posix_dirname (CHR ''/'' # js_join ''/'' (ss @ [x])) = CHR ''/'' # js_join ''/'' ss"
    using snoc.prems by (rule posix_dirname_abs)
  have "js_join ''/'' (ss @ [x]) \<noteq> js_join ''/'' ss"
    using x by (auto simp: js_join_snoc)
  then have "\<not> at_top (posix_env files links) (CHR ''/'' # js_join ''/'' (ss @ [x]))"
    using d by (simp add: at_top_def posix_env_def)
  moreover have "climbs (posix_env files links)
                   (path_dirname (posix_env files links) (CHR ''/'' # js_join ''/'' (ss @ [x])))
                   (length ss)"
    using snoc.IH[OF ss] d by (simp add: posix_env_def)
  ultimately show ?case by simp
qed

lemma posix_walk_ends:
  "\<exists>n. climbs (posix_env files links) (path_resolve (posix_env files links) [root]) n"
proof -
  obtain ss where "list_all seg_ok ss" "posix_resolve [root] = CHR ''/'' # js_join ''/'' ss"
    using posix_resolve_form by blast
  then have "climbs (posix_env files links) (path_resolve (posix_env files links) [root])
               (length ss)"
    using posix_climbs_abs[of ss files links] by (simp add: posix_env_def)
  then show ?thesis ..
qed

lemma posix_load_settles:
  "\<exists>s' logged. loadRooIgnore (posix_env files links) s = Some (s', logged)"
proof -
  obtain n where "climbs (posix_env files links) (path_resolve (posix_env files links) [cwd s]) n"
    using posix_walk_ends by blast
  from find_climbs[OF this] show ?thesis
    by (cases "load_found (posix_env files links) s
                 (rev (discovered (posix_env files links)
                        (path_resolve (posix_env files links) [cwd s]) n))")
       (simp add: loadRooIgnore_def)
qed

lemma test_load:
  "loadRooIgnore (test_env links) test_start = Some (test_loaded, [])"
  by code_simp

section \<open>The claims\<close>

text \<open>
  Claim C1. When an exception is thrown during a load outside the loop that reads the
  files (here: the matcher refuses the combined text, or the self-hiding rule), the load
  still settles: it logs the error, leaves the combined content undefined and the matcher
  a fresh empty instance, and \<open>validateAccess\<close> returns true for every path from then on.
\<close>

theorem unexpected_load_error_resets:
  assumes found: "findKilocodeIgnoreFiles e (cwd s) = Some files"
    and units: "combined_units e (cwd s) files \<noteq> []"
    and throws: "add_error e (js_join ''\<newline>'' (combined_units e (cwd s) files)) \<noteq> None
                 \<or> add_error e self_hiding_rule \<noteq> None"
  shows "\<exists>s' logged msg.
           loadRooIgnore e s = Some (s', logged) \<and>
           Error (''Unexpected error loading .kilocodeignore files: '' @ msg) \<in> set logged \<and>
           rooIgnoreContent s' = None \<and> ignoreInstance s' = ignore_new \<and>
           (\<forall>p. validateAccess e s' p)"
proof -
  obtain comb logged where r: "read_all e (cwd s) files = (comb, logged)" by force
  then have c: "comb = combined_units e (cwd s) files"
    using read_all_units[of e "cwd s" files] by simp
  from units have ne: "files \<noteq> []" by auto
  let ?s' = "s\<lparr>rooIgnoreContent := None, ignoreInstance := ignore_new\<rparr>"
  have "\<exists>msg. load_found e s files =
          (?s', logged @ [Error (''Unexpected error loading .kilocodeignore files: '' @ msg)])"
    using ne r units throws unfolding c
    by (auto simp: load_found_def load_failed_def ignore_add_def Let_def split: option.splits)
  then obtain msg where "load_found e s files =
          (?s', logged @ [Error (''Unexpected error loading .kilocodeignore files: '' @ msg)])" ..
  with found have "loadRooIgnore e s =
      Some (?s', logged @ [Error (''Unexpected error loading .kilocodeignore files: '' @ msg)])"
    by (simp add: loadRooIgnore_def)
  moreover have "\<forall>p. validateAccess e ?s' p"
    by (simp add: validateAccess_def truthy_def)
  ultimately show ?thesis by force
qed

text \<open>In the test workspace, with a matcher that refuses every text.\<close>

theorem unexpected_load_error_resets_witness:
  "loadRooIgnore broken_env test_start
     = Some (test_start,
             [Error ''Unexpected error loading .kilocodeignore files: Invalid regular expression''])
   \<and> validateAccess broken_env test_start ''secrets/keys.json''"
proof -
  have found: "findKilocodeIgnoreFiles broken_env (cwd test_start)
                 = Some [''/test/path/.kilocodeignore'']"
    by code_simp
  have units: "combined_units broken_env (cwd test_start) [''/test/path/.kilocodeignore''] \<noteq> []"
    by code_simp
  have throws: "add_error broken_env (js_join ''\<newline>''
                   (combined_units broken_env (cwd test_start) [''/test/path/.kilocodeignore'']))
                  \<noteq> None \<or> add_error broken_env self_hiding_rule \<noteq> None"
    by (simp add: broken_env_def)
  have run: "loadRooIgnore broken_env test_start
     = Some (test_start,
             [Error ''Unexpected error loading .kilocodeignore files: Invalid regular expression''])"
    by code_simp
  from unexpected_load_error_resets[OF found units throws] run show ?thesis by auto
qed

text \<open>
  Claim C2, as stated, fails for a symbolic link that lies outside the workspace root and
  points into it: \<open>validateAccess\<close> follows the link and checks the target against the
  patterns. Here \<open>/outside/link.txt\<close> is a link to \<open>/test/path/secrets/key\<close>, and
  \<open>secrets/**\<close> is ignored.
\<close>

theorem outside_link_into_root_counterexample:
  "loadRooIgnore (test_env [(''/outside/link.txt'', ''/test/path/secrets/key'')]) test_start
     = Some (test_loaded, []) \<and>
   path_isAbsolute (test_env [(''/outside/link.txt'', ''/test/path/secrets/key'')])
     ''/outside/link.txt'' \<and>
   lexically_outside (test_env [(''/outside/link.txt'', ''/test/path/secrets/key'')])
     test_loaded ''/outside/link.txt'' \<and>
   \<not> validateAccess (test_env [(''/outside/link.txt'', ''/test/path/secrets/key'')])
     test_loaded ''/outside/link.txt''"
  by code_simp

text \<open>
  Claim C2, amended. Whenever the matcher throws on the candidate path, \<open>validateAccess\<close>
  returns true, and no exception leaves it (it is a total function to \<open>bool\<close>). With a
  matcher that throws on an absolute path, on \<open>..\<close> and on a path that starts with \<open>../\<close>,
  this is the case, whatever the patterns are, for every path that is written in one of
  these three forms and that lies outside the workspace root once symbolic links are
  resolved. While there is combined content, a path whose resolved relative path does not
  pass the test of line 189, such as a link outside the root that points into it, is
  accessible exactly when the matcher does not ignore this resolved path.
\<close>

theorem outside_paths_fail_open:
  assumes "strict_path_check e"
  shows "(validateAccess_try e s p = Inl err \<longrightarrow> validateAccess e s p) \<and>
         (resolved_outside e s p \<and> written_outside e p \<longrightarrow> validateAccess e s p) \<and>
         (truthy (rooIgnoreContent s) \<and> \<not> falls_back e s p
            \<longrightarrow> validateAccess e s p
                 = (ignores e (ignoreInstance s) (resolved_relative e s p) \<noteq> Inr True))"
proof (intro conjI impI)
  assume "validateAccess_try e s p = Inl err"
  then show "validateAccess e s p" by (simp add: validateAccess_def)
next
  assume a: "resolved_outside e s p \<and> written_outside e p"
  have "isl (ignores e (ignoreInstance s) (matcher_path e s p))"
  proof (cases "falls_back e s p")
    case True
    then have "matcher_path e s p = toPosix e p" by (simp add: matcher_path_cases)
    moreover from a have "toPosix e p = ''..'' \<or> startsWith (toPosix e p) ''/''
                          \<or> startsWith (toPosix e p) ''../''"
      by (simp add: written_outside_def)
    ultimately show ?thesis using assms unfolding strict_path_check_def by metis
  next
    case False
    with a have "resolved_relative e s p = ''..''"
      by (auto simp: resolved_outside_def outside_root_def falls_back_def escapes_def)
    with False have "matcher_path e s p = ''..''" by (simp add: matcher_path_cases)
    then show ?thesis using assms unfolding strict_path_check_def by metis
  qed
  then show "validateAccess e s p"
    by (auto simp: validateAccess_def validateAccess_try_def isl_def)
next
  assume "truthy (rooIgnoreContent s) \<and> \<not> falls_back e s p"
  then show "validateAccess e s p
               = (ignores e (ignoreInstance s) (resolved_relative e s p) \<noteq> Inr True)"
    using validateAccess_matcher[of s e p] by (simp add: matcher_path_cases)
qed

text \<open>
  The two paths of the test "should allow access to paths outside cwd", the parent
  directory of the workspace, and the link of the counterexample.
\<close>

theorem outside_paths_fail_open_witness:
  "resolved_outside (test_env []) test_loaded ''/etc/hosts'' \<and>
   written_outside (test_env []) ''/etc/hosts'' \<and>
   validateAccess (test_env []) test_loaded ''/etc/hosts'' \<and>
   resolved_outside (test_env []) test_loaded ''../outside-project/file.txt'' \<and>
   written_outside (test_env []) ''../outside-project/file.txt'' \<and>
   validateAccess (test_env []) test_loaded ''../outside-project/file.txt'' \<and>
   resolved_outside (test_env []) test_loaded ''/test'' \<and>
   written_outside (test_env []) ''/test'' \<and>
   matcher_path (test_env []) test_loaded ''/test'' = ''..'' \<and>
   validateAccess (test_env []) test_loaded ''/test'' \<and>
   truthy (rooIgnoreContent test_loaded) \<and>
   resolved_relative (test_env [(''/outside/link.txt'', ''/test/path/secrets/key'')])
     test_loaded ''/outside/link.txt'' = ''secrets/key'' \<and>
   ignores (test_env [(''/outside/link.txt'', ''/test/path/secrets/key'')])
     (ignoreInstance test_loaded) ''secrets/key'' = Inr True \<and>
   validateAccess (test_env [(''/outside/link.txt'', ''/test/path/secrets/key'')])
     test_loaded ''/outside/link.txt'' = False"
proof -
  have strict: "strict_path_check (test_env links)" for links
    unfolding test_env_def by (rule posix_strict)
  have abs: "resolved_outside (test_env []) test_loaded ''/etc/hosts'' \<and>
     written_outside (test_env []) ''/etc/hosts''"
    by code_simp
  have rel: "resolved_outside (test_env []) test_loaded ''../outside-project/file.txt'' \<and>
     written_outside (test_env []) ''../outside-project/file.txt''"
    by code_simp
  have up: "resolved_outside (test_env []) test_loaded ''/test'' \<and>
     written_outside (test_env []) ''/test'' \<and>
     matcher_path (test_env []) test_loaded ''/test'' = ''..''"
    by code_simp
  have link: "truthy (rooIgnoreContent test_loaded) \<and>
     \<not> falls_back (test_env [(''/outside/link.txt'', ''/test/path/secrets/key'')])
         test_loaded ''/outside/link.txt'' \<and>
     resolved_relative (test_env [(''/outside/link.txt'', ''/test/path/secrets/key'')])
       test_loaded ''/outside/link.txt'' = ''secrets/key'' \<and>
     ignores (test_env [(''/outside/link.txt'', ''/test/path/secrets/key'')])
       (ignoreInstance test_loaded) ''secrets/key'' = Inr True"
    by code_simp
  from outside_paths_fail_open[OF strict, of "[]" test_loaded "''/etc/hosts''"]
       outside_paths_fail_open[OF strict, of "[]" test_loaded "''../outside-project/file.txt''"]
       outside_paths_fail_open[OF strict, of "[]" test_loaded "''/test''"]
       outside_paths_fail_open[OF strict,
         of "[(''/outside/link.txt'', ''/test/path/secrets/key'')]" test_loaded
            "''/outside/link.txt''"]
       abs rel up link
  show ?thesis by simp
qed

text \<open>
  Claim C3. While the combined content is undefined, \<open>validateAccess\<close> returns true for
  every path. A load leaves it undefined when no ignore-file was found, and when none of
  the files that were found has anything but white space in it.
\<close>

theorem sentinel_allows_everything:
  "(\<not> truthy (rooIgnoreContent s) \<longrightarrow> validateAccess e s p) \<and>
   (findKilocodeIgnoreFiles e (cwd s) = Some files \<and> \<not> list_ex (has_patterns e) files \<and>
    loadRooIgnore e s = Some (s', logged)
      \<longrightarrow> rooIgnoreContent s' = None \<and> validateAccess e s' p)"
proof (intro conjI impI)
  assume "\<not> truthy (rooIgnoreContent s)"
  then show "validateAccess e s p" by (rule validateAccess_sentinel)
next
  assume a: "findKilocodeIgnoreFiles e (cwd s) = Some files \<and>
    \<not> list_ex (has_patterns e) files \<and> loadRooIgnore e s = Some (s', logged)"
  then have "combined_units e (cwd s) files = []" by (simp add: combined_units_empty)
  with a loadRooIgnore_installed[of e s files] have "s' = installed e s []" by auto
  then have n: "rooIgnoreContent s' = None" by (simp add: installed_def)
  then show "rooIgnoreContent s' = None" .
  from n show "validateAccess e s' p" by (simp add: validateAccess_sentinel truthy_def)
qed

text \<open>Before the first load, and after the load of a blank ignore-file.\<close>

theorem sentinel_allows_everything_witness:
  "\<not> truthy (rooIgnoreContent test_start) \<and>
   validateAccess (test_env []) test_start ''secrets/key'' \<and>
   findKilocodeIgnoreFiles blank_env (cwd test_start) = Some [''/test/path/.kilocodeignore''] \<and>
   \<not> list_ex (has_patterns blank_env) [''/test/path/.kilocodeignore''] \<and>
   loadRooIgnore blank_env test_start = Some (test_start, []) \<and>
   rooIgnoreContent test_start = None \<and>
   validateAccess blank_env test_start ''secrets/key''"
proof -
  have h1: "\<not> truthy (rooIgnoreContent test_start)" by code_simp
  have h2: "findKilocodeIgnoreFiles blank_env (cwd test_start)
              = Some [''/test/path/.kilocodeignore''] \<and>
   \<not> list_ex (has_patterns blank_env) [''/test/path/.kilocodeignore''] \<and>
   loadRooIgnore blank_env test_start = Some (test_start, [])"
    by code_simp
  from sentinel_allows_everything[of test_start "test_env []" "''secrets/key''"]
       sentinel_allows_everything[of test_start blank_env "''secrets/key''"
                      "[''/test/path/.kilocodeignore'']" test_start "[]"]
       h1 h2
  show ?thesis by blast
qed

text \<open>
  Claim C4. \<open>validateCommand\<close> splits the trimmed command on runs of white space. When the
  first token in lower case is not a file-reading command, the answer is \<open>undefined\<close>.
  Otherwise the answer is the first of the other tokens, from left to right, that does
  not start with \<open>-\<close> or \<open>/\<close>, has no colon, and is not accessible; \<open>undefined\<close> when there
  is none. When \<open>secrets/keys.json\<close> is ignored, \<open>cat secrets/keys.json\<close> gives
  \<open>secrets/keys.json\<close>; \<open>ls secrets\<close> gives \<open>undefined\<close> in every state.
\<close>

theorem validateCommand_scans_arguments:
  "validateCommand e s command = validateCommand_spec e s command \<and>
   (\<not> validateAccess e s ''secrets/keys.json''
      \<longrightarrow> validateCommand e s ''cat secrets/keys.json'' = Some ''secrets/keys.json'') \<and>
   validateCommand e s ''ls secrets'' = None"
proof (intro conjI impI)
  show "validateCommand e s command = validateCommand_spec e s command"
  proof (cases "truthy (rooIgnoreContent s)")
    case True
    then show ?thesis
      by (simp add: validateCommand_def validateCommand_spec_def scan_args_find
               split: list.splits)
  next
    case False
    then have "find (\<lambda>token. \<not> validateAccess e s token) xs = None" for xs
      by (simp add: find_None_iff validateAccess_sentinel)
    with False show ?thesis
      by (simp add: validateCommand_def validateCommand_spec_def split: list.splits)
  qed
next
  have parts: "js_split_ws (js_trim ''cat secrets/keys.json'') = [''cat'', ''secrets/keys.json'']"
    by code_simp
  have cat: "toLowerCase ''cat'' \<in> set fileReadingCommands" by code_simp
  have arg: "\<not> startsWith ''secrets/keys.json'' ''-'' \<and> \<not> startsWith ''secrets/keys.json'' ''/''
             \<and> CHR '':'' \<notin> set ''secrets/keys.json''"
    by code_simp
  assume blocked: "\<not> validateAccess e s ''secrets/keys.json''"
  then have "truthy (rooIgnoreContent s)" using validateAccess_sentinel by blast
  with blocked show "validateCommand e s ''cat secrets/keys.json'' = Some ''secrets/keys.json''"
    unfolding validateCommand_def parts using cat arg by simp
next
  have parts: "js_split_ws (js_trim ''ls secrets'') = [''ls'', ''secrets'']" by code_simp
  have ls: "toLowerCase ''ls'' \<notin> set fileReadingCommands" by code_simp
  show "validateCommand e s ''ls secrets'' = None"
    unfolding validateCommand_def parts using ls by simp
qed

text \<open>In the test workspace, where \<open>secrets/**\<close> is one of the patterns.\<close>

theorem validateCommand_scans_arguments_witness:
  "\<not> validateAccess (test_env []) test_loaded ''secrets/keys.json'' \<and>
   validateCommand (test_env []) test_loaded ''cat secrets/keys.json''
     = Some ''secrets/keys.json'' \<and>
   validateCommand (test_env []) test_loaded ''ls secrets'' = None"
proof -
  have h: "\<not> validateAccess (test_env []) test_loaded ''secrets/keys.json''" by code_simp
  from validateCommand_scans_arguments[of "test_env []" test_loaded] h show ?thesis by blast
qed

text \<open>
  Claim C5. \<open>filterPaths\<close> returns the paths of its input for which \<open>validateAccess\<close> is
  true, in the order of the input: of \<open>a\<close>, \<open>b\<close>, \<open>c\<close> with \<open>b\<close> ignored it returns \<open>a\<close>,
  \<open>c\<close>. Over a \<open>validateAccess\<close> that throws, as the one the test suite puts in its place,
  it returns the empty list when the check throws on any path of the batch, and the
  paths that pass when it throws on none.
\<close>

theorem filterPaths_keeps_allowed:
  "filterPaths e s paths = filter (validateAccess e s) paths \<and>
   (validateAccess e s a \<and> \<not> validateAccess e s b \<and> validateAccess e s c
      \<longrightarrow> filterPaths e s [a, b, c] = [a, c]) \<and>
   (list_ex (\<lambda>p. isl (check p)) paths \<longrightarrow> filterPaths_with check paths = []) \<and>
   (\<not> list_ex (\<lambda>p. isl (check p)) paths
      \<longrightarrow> filterPaths_with check paths = filter (\<lambda>p. check p = Inr True) paths)"
  by (simp add: filterPaths_filter filterPaths_with_throw filterPaths_with_ok)

theorem filterPaths_keeps_allowed_witness:
  "filterPaths (test_env []) test_loaded [''src/app.ts'', ''secrets/keys.json'', ''README.md'']
     = [''src/app.ts'', ''README.md''] \<and>
   list_ex (\<lambda>p. isl (if p = ''file2.txt'' then Inl ''Test error'' else Inr True))
     [''file1.txt'', ''file2.txt''] \<and>
   filterPaths_with (\<lambda>p. if p = ''file2.txt'' then Inl ''Test error'' else Inr True)
     [''file1.txt'', ''file2.txt''] = []"
proof -
  have h1: "validateAccess (test_env []) test_loaded ''src/app.ts'' \<and>
            \<not> validateAccess (test_env []) test_loaded ''secrets/keys.json'' \<and>
            validateAccess (test_env []) test_loaded ''README.md''"
    by code_simp
  have h2: "list_ex (\<lambda>p. isl (if p = ''file2.txt'' then Inl ''Test error''
                                else (Inr True :: string + bool)))
     [''file1.txt'', ''file2.txt'']"
    by simp
  from filterPaths_keeps_allowed[where e = "test_env []" and s = test_loaded
         and a = "''src/app.ts''" and b = "''secrets/keys.json''" and c = "''README.md''"
         and check = "\<lambda>p. if p = ''file2.txt'' then Inl ''Test error'' else Inr True"
         and paths = "[''file1.txt'', ''file2.txt'']"] h1 h2
  show ?thesis by blast
qed

text \<open>
  Claim C6. When the walk from the start directory visits \<open>n\<close> directories before it
  stops, \<open>findKilocodeIgnoreFiles\<close> returns the ignore-files that exist in them, the one
  of the topmost directory first. The load then installs the combined buffer of these
  files in this order: for each file with more than white space in it, the line
  \<open># From:\<close> with its path relative to the workspace root, then its content as read;
  nothing for a blank file.
\<close>

theorem hierarchy_is_root_first:
  assumes "climbs e (path_resolve e [cwd s]) n"
  shows "findKilocodeIgnoreFiles e (cwd s)
           = Some (rev (discovered e (path_resolve e [cwd s]) n)) \<and>
         (\<exists>logged. loadRooIgnore e s =
            Some (installed e s
                    (combined_units e (cwd s) (rev (discovered e (path_resolve e [cwd s]) n))),
                  logged))"
  using find_climbs[OF assms] loadRooIgnore_installed by simp

text \<open>Two levels: an ignore-file in \<open>/test\<close> and one in \<open>/test/path\<close>.\<close>

theorem hierarchy_is_root_first_witness:
  "climbs (two_level_env (Inr ''build/''))
     (path_resolve (two_level_env (Inr ''build/'')) [cwd test_start]) 2 \<and>
   findKilocodeIgnoreFiles (two_level_env (Inr ''build/'')) (cwd test_start)
     = Some [''/test/.kilocodeignore'', ''/test/path/.kilocodeignore''] \<and>
   loadRooIgnore (two_level_env (Inr ''build/'')) test_start
     = Some (test_start
               \<lparr>ignoreInstance :=
                  [''# From: ../.kilocodeignore\<newline>build/\<newline># From: .kilocodeignore\<newline>''
                     @ test_patterns,
                   self_hiding_rule],
                rooIgnoreContent :=
                  Some (''# From: ../.kilocodeignore\<newline>build/\<newline># From: .kilocodeignore\<newline>''
                          @ test_patterns)\<rparr>,
             [])"
proof -
  have h: "climbs (two_level_env (Inr ''build/''))
             (path_resolve (two_level_env (Inr ''build/'')) [cwd test_start]) 2"
    by code_simp
  have d: "rev (discovered (two_level_env (Inr ''build/''))
             (path_resolve (two_level_env (Inr ''build/'')) [cwd test_start]) 2)
           = [''/test/.kilocodeignore'', ''/test/path/.kilocodeignore'']"
    by code_simp
  have l: "loadRooIgnore (two_level_env (Inr ''build/'')) test_start
     = Some (test_start
               \<lparr>ignoreInstance :=
                  [''# From: ../.kilocodeignore\<newline>build/\<newline># From: .kilocodeignore\<newline>''
                     @ test_patterns,
                   self_hiding_rule],
                rooIgnoreContent :=
                  Some (''# From: ../.kilocodeignore\<newline>build/\<newline># From: .kilocodeignore\<newline>''
                          @ test_patterns)\<rparr>,
             [])"
    by code_simp
  from hierarchy_is_root_first[OF h] d l h show ?thesis by simp
qed

text \<open>
  Claim C7. \<open>dispose\<close> releases the watcher and its subscriptions, so a notification that
  arrives after it arms no timer. It does not clear the timeout that \<open>debouncedReload\<close>
  has armed: a notification, then \<open>dispose\<close>, then the timeout, and \<open>loadRooIgnore\<close> is
  started after \<open>dispose\<close> has returned.
\<close>

theorem reload_after_dispose:
  "journal (run (construct ''/test/path'') [Notify Changed, Dispose, Fire 1])
     = [Disposed, ReloadStarted]"
  by code_simp

text \<open>What \<open>dispose\<close> does stop, and what it leaves.\<close>

lemma dispose_stops_notifications:
  "set (live h) \<subseteq> set (disposables (ctl h)) \<Longrightarrow> step (dispose h) (Notify k) = dispose h"
proof -
  assume "set (live h) \<subseteq> set (disposables (ctl h))"
  then have "filter (\<lambda>d. d \<notin> set (disposables (ctl h))) (live h) = []"
    by (auto simp: filter_empty_conv)
  then show ?thesis by (simp add: dispose_def)
qed

lemma dispose_keeps_timers: "timers (dispose h) = timers h"
  by (simp add: dispose_def)

text \<open>A burst of notifications leaves one timeout armed, the last one.\<close>

lemma debouncedReload_one_timer:
  "set (timers h) \<subseteq> set (case_option [] (\<lambda>t. [t]) (reloadTimeout (ctl h))) \<Longrightarrow>
   timers (debouncedReload h) = [fresh h]"
  by (cases "reloadTimeout (ctl h)")
     (auto simp: debouncedReload_def removeAll_filter_not_eq filter_empty_conv)

text \<open>
  Claim C8. When \<open>readFile\<close> fails for one of the files that were found, the load warns
  with the path and the error, takes nothing from this file, and settles in the state
  that the readable files alone would have given.
\<close>

theorem unreadable_file_is_skipped:
  assumes found: "findKilocodeIgnoreFiles e (cwd s) = Some files"
    and bad: "bad \<in> set files" "fs_readFile e bad = Inl msg"
  shows "\<exists>s' logged.
           loadRooIgnore e s = Some (s', logged) \<and>
           Warn (''Warning: Could not read .kilocodeignore at '' @ bad @ '': '' @ msg)
             \<in> set logged \<and>
           contribution e (cwd s) bad = [] \<and>
           s' = installed e s (combined_units e (cwd s) (filter (readable e) files)) \<and>
           s' = fst (load_found e s (filter (readable e) files))"
proof -
  from bad(1) have ne: "files \<noteq> []" by auto
  have w: "Warn (''Warning: Could not read .kilocodeignore at '' @ bad @ '': '' @ msg)
             \<in> set (snd (load_found e s files))"
    using read_all_warns[OF bad] load_found_log[OF ne] by blast
  have st: "fst (load_found e s files)
              = installed e s (combined_units e (cwd s) (filter (readable e) files))"
    by (simp add: load_found_installed combined_units_readable)
  have "loadRooIgnore e s = Some (fst (load_found e s files), snd (load_found e s files))"
    using found by (simp add: loadRooIgnore_def)
  moreover have "contribution e (cwd s) bad = []" using bad(2) by (simp add: contribution_def)
  ultimately show ?thesis using w st by (simp add: load_found_installed)
qed

text \<open>The ignore-file of \<open>/test\<close> cannot be read; the patterns of \<open>/test/path\<close> are loaded.\<close>

theorem unreadable_file_is_skipped_witness:
  "findKilocodeIgnoreFiles (two_level_env (Inl ''EACCES: permission denied'')) (cwd test_start)
     = Some [''/test/.kilocodeignore'', ''/test/path/.kilocodeignore''] \<and>
   fs_readFile (two_level_env (Inl ''EACCES: permission denied'')) ''/test/.kilocodeignore''
     = Inl ''EACCES: permission denied'' \<and>
   loadRooIgnore (two_level_env (Inl ''EACCES: permission denied'')) test_start
     = Some (test_loaded,
             [Warn ''Warning: Could not read .kilocodeignore at /test/.kilocodeignore: EACCES: permission denied''])"
proof -
  have found: "findKilocodeIgnoreFiles (two_level_env (Inl ''EACCES: permission denied''))
                 (cwd test_start)
     = Some [''/test/.kilocodeignore'', ''/test/path/.kilocodeignore'']"
    by code_simp
  have bad: "''/test/.kilocodeignore''
               \<in> set [''/test/.kilocodeignore'', ''/test/path/.kilocodeignore'']"
    by simp
  have err: "fs_readFile (two_level_env (Inl ''EACCES: permission denied''))
               ''/test/.kilocodeignore'' = Inl ''EACCES: permission denied''"
    by code_simp
  have run: "loadRooIgnore (two_level_env (Inl ''EACCES: permission denied'')) test_start
     = Some (test_loaded,
             [Warn ''Warning: Could not read .kilocodeignore at /test/.kilocodeignore: EACCES: permission denied''])"
    by code_simp
  from unreadable_file_is_skipped[OF found bad err] found err run show ?thesis by simp
qed

text \<open>
  Claim C9, as stated, fails for an ignore-file that is a symbolic link to a file inside
  the workspace: the matcher is asked about the resolved path, and that need not end in
  \<open>.kilocodeignore\<close>. Here \<open>/test/path/.kilocodeignore\<close> is a link to
  \<open>/test/path/shared/rules.txt\<close>.
\<close>

theorem linked_ignore_file_counterexample:
  "loadRooIgnore (test_env [(''/test/path/.kilocodeignore'', ''/test/path/shared/rules.txt'')])
     test_start = Some (test_loaded, []) \<and>
   truthy (rooIgnoreContent test_loaded) \<and>
   \<not> lexically_outside
       (test_env [(''/test/path/.kilocodeignore'', ''/test/path/shared/rules.txt'')])
       test_loaded ''.kilocodeignore'' \<and>
   final_segment ''.kilocodeignore'' = ignore_file_name \<and>
   validateAccess (test_env [(''/test/path/.kilocodeignore'', ''/test/path/shared/rules.txt'')])
     test_loaded ''.kilocodeignore''"
  by code_simp

text \<open>
  Claim C9, amended. When an \<open>initialize\<close> or a reload that no other load overlaps
  settles with combined content, this content is not empty and the matcher holds exactly
  the content and then the self-hiding rule. \<open>validateAccess\<close> then answers by the matcher
  alone, on the form of the path that it hands to the matcher: the path relative to the
  workspace root with symbolic links resolved, or the path as written when that relative
  path starts with \<open>../\<close> or is absolute. With a matcher in which the last rule decides,
  \<open>validateAccess\<close> is false for every path whose form handed to the matcher is a relative
  path that ends in the segment \<open>.kilocodeignore\<close>.
\<close>

theorem self_hiding_rule_installed:
  assumes matcher: "honours_self_hiding e"
    and load: "initialize e s = Some (s', logged) \<or> loadRooIgnore e s = Some (s', logged)"
    and active: "rooIgnoreContent s' = Some text"
  shows "ignoreInstance s' = [text, self_hiding_rule] \<and> truthy (rooIgnoreContent s') \<and>
         matcher_path e s' p
           = (if falls_back e s' p then toPosix e p else resolved_relative e s' p) \<and>
         validateAccess e s' p
           = (ignores e [text, self_hiding_rule] (matcher_path e s' p) \<noteq> Inr True) \<and>
         (relative_form (matcher_path e s' p) \<and>
          final_segment (matcher_path e s' p) = ignore_file_name
            \<longrightarrow> \<not> validateAccess e s' p) \<and>
         (\<not> falls_back e s' p \<and> relative_form (resolved_relative e s' p) \<and>
          final_segment (resolved_relative e s' p) = ignore_file_name
            \<longrightarrow> \<not> validateAccess e s' p) \<and>
         (falls_back e s' p \<and> relative_form (toPosix e p) \<and>
          final_segment (toPosix e p) = ignore_file_name
            \<longrightarrow> \<not> validateAccess e s' p)"
proof -
  from load have l: "loadRooIgnore e s = Some (s', logged)" by (auto simp: initialize_def)
  then obtain files where f: "findKilocodeIgnoreFiles e (cwd s) = Some files"
    by (auto simp: loadRooIgnore_def split: option.splits)
  from loadRooIgnore_installed[OF f] l
  have s': "s' = installed e s (combined_units e (cwd s) files)" by auto
  with active have inst: "ignoreInstance s' = [text, self_hiding_rule]"
    by (auto simp: installed_def split: if_splits)
  from active s' have t: "text \<noteq> []" using installed_truthy by blast
  with active have tr: "truthy (rooIgnoreContent s')" by (simp add: truthy_def)
  have va: "validateAccess e s' p
              = (ignores e [text, self_hiding_rule] (matcher_path e s' p) \<noteq> Inr True)"
    using validateAccess_matcher[OF tr, of e p] by (simp add: inst)
  have hid: "\<not> validateAccess e s' p"
    if "relative_form (matcher_path e s' p)"
       "final_segment (matcher_path e s' p) = ignore_file_name"
  proof -
    from that matcher
    have "ignores e ([text] @ [self_hiding_rule]) (matcher_path e s' p) = Inr True"
      unfolding honours_self_hiding_def by blast
    then show ?thesis by (simp add: va)
  qed
  have inside: "\<not> validateAccess e s' p"
    if "\<not> falls_back e s' p \<and> relative_form (resolved_relative e s' p) \<and>
        final_segment (resolved_relative e s' p) = ignore_file_name"
    using that hid by (simp add: matcher_path_cases)
  have written: "\<not> validateAccess e s' p"
    if "falls_back e s' p \<and> relative_form (toPosix e p) \<and>
        final_segment (toPosix e p) = ignore_file_name"
    using that hid by (simp add: matcher_path_cases)
  from inst tr va hid inside written matcher_path_cases[of e s' p]
  show ?thesis by blast
qed

text \<open>
  In the test workspace: the ignore-file of a subdirectory, and an ignore-file that is a
  link to a file outside the workspace, which goes to the matcher as it is written.
\<close>

theorem self_hiding_rule_installed_witness:
  "loadRooIgnore (test_env []) test_start = Some (test_loaded, []) \<and>
   rooIgnoreContent test_loaded = Some (''# From: .kilocodeignore\<newline>'' @ test_patterns) \<and>
   ignoreInstance test_loaded
     = [''# From: .kilocodeignore\<newline>'' @ test_patterns, self_hiding_rule] \<and>
   resolved_relative (test_env []) test_loaded ''src/.kilocodeignore''
     = ''src/.kilocodeignore'' \<and>
   relative_form ''src/.kilocodeignore'' \<and>
   final_segment ''src/.kilocodeignore'' = ignore_file_name \<and>
   validateAccess (test_env []) test_loaded ''src/.kilocodeignore'' = False \<and>
   loadRooIgnore (test_env [(''/test/path/.kilocodeignore'', ''/shared/rules.txt'')]) test_start
     = Some (test_loaded, []) \<and>
   falls_back (test_env [(''/test/path/.kilocodeignore'', ''/shared/rules.txt'')])
     test_loaded ''.kilocodeignore'' \<and>
   matcher_path (test_env [(''/test/path/.kilocodeignore'', ''/shared/rules.txt'')])
     test_loaded ''.kilocodeignore'' = ''.kilocodeignore'' \<and>
   validateAccess (test_env [(''/test/path/.kilocodeignore'', ''/shared/rules.txt'')])
     test_loaded ''.kilocodeignore'' = False"
proof -
  have matcher: "honours_self_hiding (test_env links)" for links
    unfolding test_env_def by (rule posix_self_hiding)
  have load: "initialize (test_env links) test_start = Some (test_loaded, [])
              \<or> loadRooIgnore (test_env links) test_start = Some (test_loaded, [])" for links
    by (simp add: test_load)
  have active: "rooIgnoreContent test_loaded
                  = Some (''# From: .kilocodeignore\<newline>'' @ test_patterns)"
    by (simp add: test_loaded_def)
  have sub: "\<not> falls_back (test_env []) test_loaded ''src/.kilocodeignore'' \<and>
     relative_form (resolved_relative (test_env []) test_loaded ''src/.kilocodeignore'') \<and>
     final_segment (resolved_relative (test_env []) test_loaded ''src/.kilocodeignore'')
       = ignore_file_name"
    by code_simp
  have link: "falls_back (test_env [(''/test/path/.kilocodeignore'', ''/shared/rules.txt'')])
       test_loaded ''.kilocodeignore'' \<and>
     relative_form (toPosix (test_env [(''/test/path/.kilocodeignore'', ''/shared/rules.txt'')])
       ''.kilocodeignore'') \<and>
     final_segment (toPosix (test_env [(''/test/path/.kilocodeignore'', ''/shared/rules.txt'')])
       ''.kilocodeignore'') = ignore_file_name"
    by code_simp
  have vals: "resolved_relative (test_env []) test_loaded ''src/.kilocodeignore''
       = ''src/.kilocodeignore'' \<and>
     relative_form ''src/.kilocodeignore'' \<and>
     final_segment ''src/.kilocodeignore'' = ignore_file_name \<and>
     matcher_path (test_env [(''/test/path/.kilocodeignore'', ''/shared/rules.txt'')])
       test_loaded ''.kilocodeignore'' = ''.kilocodeignore''"
    by code_simp
  from self_hiding_rule_installed[OF matcher[of "[]"] load[of "[]"] active,
         where p = "''src/.kilocodeignore''"] sub
  have d1: "\<not> validateAccess (test_env []) test_loaded ''src/.kilocodeignore''"
    by blast
  from self_hiding_rule_installed[
         OF matcher[of "[(''/test/path/.kilocodeignore'', ''/shared/rules.txt'')]"]
            load[of "[(''/test/path/.kilocodeignore'', ''/shared/rules.txt'')]"] active,
         where p = "''.kilocodeignore''"] link
  have d2: "\<not> validateAccess (test_env [(''/test/path/.kilocodeignore'', ''/shared/rules.txt'')])
              test_loaded ''.kilocodeignore''"
    by blast
  have inst: "ignoreInstance test_loaded
     = [''# From: .kilocodeignore\<newline>'' @ test_patterns, self_hiding_rule]"
    by (simp add: test_loaded_def)
  from d1 d2 vals link active inst test_load[of "[]"]
       test_load[of "[(''/test/path/.kilocodeignore'', ''/shared/rules.txt'')]"]
  show ?thesis by blast
qed

text \<open>
  Claim C10. A string returned by \<open>validateCommand\<close> is one of the tokens of the trimmed
  command, as it stands in the command: it has no white space in it, does not start
  with \<open>-\<close> or \<open>/\<close>, has no colon, and \<open>validateAccess\<close> is false for it.
\<close>

theorem validateCommand_result_is_token:
  assumes "validateCommand e s command = Some r"
  shows "r \<in> set (js_split_ws (js_trim command)) \<and> (\<exists>pre post. command = pre @ r @ post) \<and>
         \<not> list_ex is_space r \<and>
         \<not> startsWith r ''-'' \<and> \<not> startsWith r ''/'' \<and> CHR '':'' \<notin> set r \<and>
         \<not> validateAccess e s r"
proof -
  from assms obtain part0 args where
    parts: "js_split_ws (js_trim command) = part0 # args" and
    scan: "scan_args (validateAccess e s) args = Some r"
    by (auto simp: validateCommand_def split: if_splits list.splits)
  from scan_args_Some[OF scan] have r: "r \<in> set args" "\<not> skipped r" "\<not> validateAccess e s r"
    by simp_all
  from r(1) parts have tok: "r \<in> set (js_split_ws (js_trim command))" by simp
  have "\<not> list_ex is_space r"
    using tok split_from_no_space[of r "[]" "js_trim command"] by (simp add: js_split_ws_def)
  with tok token_inside[OF tok] r(2,3) show ?thesis by (simp add: skipped_def)
qed

theorem validateCommand_result_is_token_witness:
  "validateCommand (test_env []) test_loaded ''grep -n secret src/app.ts secrets/keys.json''
     = Some ''secrets/keys.json'' \<and>
   ''secrets/keys.json''
     \<in> set (js_split_ws (js_trim ''grep -n secret src/app.ts secrets/keys.json'')) \<and>
   \<not> validateAccess (test_env []) test_loaded ''secrets/keys.json''"
proof -
  have h: "validateCommand (test_env []) test_loaded
             ''grep -n secret src/app.ts secrets/keys.json'' = Some ''secrets/keys.json''"
    by code_simp
  from validateCommand_result_is_token[OF h] h show ?thesis by simp
qed

end
